theory Spec2Isabelle
  imports Main
begin

section \<open>The per-target connection state of the gNMI gateway\<close>

text \<open>
  A shallow embedding of \<^verbatim>\<open>gateway/connections/state.go\<close>: the type
  \<^verbatim>\<open>TargetState\<close> and its receivers \<^verbatim>\<open>Equal\<close>, \<^verbatim>\<open>connect\<close>,
  \<^verbatim>\<open>connectWithLock\<close>, \<^verbatim>\<open>disconnect\<close>, \<^verbatim>\<open>disconnected\<close>,
  \<^verbatim>\<open>reconnect\<close>, \<^verbatim>\<open>handleUpdate\<close> and \<^verbatim>\<open>rejectUpdate\<close>.

  Conventions of the model.
  \<^item> A Go pointer to an optional sub-message (\<^verbatim>\<open>Target.Credentials\<close>,
    \<^verbatim>\<open>Notification.Prefix\<close>, \<^verbatim>\<open>Update.Path\<close>, \<^verbatim>\<open>TargetState.client\<close>) is an
    \<open>option\<close>; \<open>None\<close> is \<^verbatim>\<open>nil\<close>.
  \<^item> Reading a field through a \<^verbatim>\<open>nil\<close> pointer without the generated getter panics in
    Go; the model returns \<open>Panicked\<close> there.
  \<^item> The elements of a repeated message field and the message inside a
    \<^verbatim>\<open>SubscribeResponse_Update\<close> are never \<^verbatim>\<open>nil\<close>: the protobuf decoder
    allocates them.
  \<^item> Log output is not modelled.
\<close>

subsection \<open>Protocol messages\<close>

type_synonym addr = nat

text \<open>\<^verbatim>\<open>gnmipb.PathElem\<close>: a name and a \<^verbatim>\<open>map[string]string\<close> of keys.\<close>

record pathElem =
  Name :: string
  Key :: "string \<rightharpoonup> string"

text \<open>\<^verbatim>\<open>gnmipb.Path\<close>.\<close>

record path =
  Element :: "string list"
  Origin :: string
  Elem :: "pathElem list"
  Target :: string

text \<open>\<^verbatim>\<open>gnmipb.Update\<close>; the typed value is opaque to this code.\<close>

record update_t =
  Path :: "path option"
  Val :: string
  Duplicates :: nat

text \<open>
  \<^verbatim>\<open>gnmipb.Notification\<close>. The prefix is a pointer into the store of \<^verbatim>\<open>Path\<close>
  objects, since \<^verbatim>\<open>handleUpdate\<close> writes through it.
\<close>

record notification =
  Timestamp :: int
  Prefix :: "addr option"
  Alias :: string
  Update :: "update_t list"
  Delete :: "path list"
  Atomic :: bool

text \<open>The errors this file creates, by the place that creates them.\<close>

datatype err =
  BugAristaInterfacePath
  | BugAristaIsisAdjacencyPath
  | BugNetconfStatePath
  | FailedTypeAssert
  | CacheUpdateError
  | ErrorInResponse
  | UnknownResponse
  | CloseError

text \<open>A call either returns a value or panics.\<close>

datatype 'a outcome = Returned 'a | Panicked

subsection \<open>The rejection filter\<close>

text \<open>
  \<^verbatim>\<open>update.GetPath().GetElem()\<close>: both getters accept \<^verbatim>\<open>nil\<close> and give the empty
  slice then.
\<close>

definition getPathElem :: "update_t \<Rightarrow> pathElem list" where
  "getPathElem u = (case Path u of None \<Rightarrow> [] | Some p \<Rightarrow> Elem p)"

text \<open>
  The body of the \<^verbatim>\<open>for\<close> loop of \<^verbatim>\<open>rejectUpdate\<close> for one update:
  \<open>Some e\<close> is the early \<^verbatim>\<open>return errors.New(...)\<close>, \<open>None\<close> falls through to the
  next update.
\<close>

definition rejectPath :: "pathElem list \<Rightarrow> err option" where
  "rejectPath p =
     (if length p \<ge> 2 then
        (if Name (p ! 0) = ''interfaces'' \<and> Name (p ! 1) = ''interface''
            \<and> Key (p ! 1) ''name'' = Some ''interface''
         then Some BugAristaInterfacePath
         else if Name (p ! 0) = ''network-instances'' \<and> Name (p ! 1) = ''network-instance''
            \<and> Key (p ! 1) ''name'' = Some ''network-instance''
         then Some BugAristaIsisAdjacencyPath
         else if Name (p ! 0) = ''netconf-state''
         then Some BugNetconfStatePath
         else None)
      else None)"

fun rejectLoop :: "update_t list \<Rightarrow> err option" where
  "rejectLoop [] = None"
| "rejectLoop (u # us) =
     (case rejectPath (getPathElem u) of
        Some e \<Rightarrow> Some e
      | None \<Rightarrow> rejectLoop us)"

text \<open>\<^verbatim>\<open>rejectUpdate\<close>: \<open>None\<close> is the \<^verbatim>\<open>nil\<close> error (accepted).\<close>

definition rejectUpdate :: "notification \<Rightarrow> err option" where
  "rejectUpdate n = rejectLoop (Update n)"

subsection \<open>Target descriptors and \<^verbatim>\<open>Equal\<close>\<close>

text \<open>\<^verbatim>\<open>targetpb.Credentials\<close> and \<^verbatim>\<open>targetpb.Target\<close>.\<close>

record credentials =
  Username :: string
  Password :: string

record target_t =
  Addresses :: "string list"
  Credentials :: "credentials option"

text \<open>The calls the cache target (\<^verbatim>\<open>*cache.Target\<close>) receives.
  \<open>GnmiUpdate a n p\<close> is \<^verbatim>\<open>GnmiUpdate\<close> called with the pointer \<open>a\<close>, where the
  notification behind \<open>a\<close> is \<open>n\<close> and the \<^verbatim>\<open>Path\<close> behind its prefix is \<open>p\<close> at the
  time of the call.\<close>

datatype sink_call =
  Connect
  | Disconnect
  | Reset
  | Sync
  | GnmiUpdate addr notification path

text \<open>
  \<^verbatim>\<open>TargetState\<close>. The field \<open>targetCache\<close> holds the calls made on the cache
  target so far, oldest first; \<open>client\<close> is the handle of the reconnect client, \<open>None\<close>
  until \<^verbatim>\<open>connect\<close> has created one. The configuration and the subscribe request are
  only read by \<^verbatim>\<open>connect\<close>, whose dependence on them is an input of the model.
\<close>

record targetState =
  name :: string
  targetCache :: "sink_call list"
  connected :: bool
  connecting :: bool
  client :: "nat option"
  stopped :: bool
  target :: target_t

text \<open>
  The loop \<^verbatim>\<open>for i, addr := range t.target.Addresses\<close> of \<^verbatim>\<open>Equal\<close>, from index
  \<open>i\<close> on: \<open>False\<close> is the early \<^verbatim>\<open>return false\<close>. The indexing
  \<^verbatim>\<open>other.Addresses[i]\<close> is in range because the lengths were compared first.
\<close>

fun addrLoop :: "string list \<Rightarrow> nat \<Rightarrow> string list \<Rightarrow> bool" where
  "addrLoop [] i other = True"
| "addrLoop (a # rest) i other =
     (if other ! i \<noteq> a then False else addrLoop rest (Suc i) other)"

text \<open>
  \<^verbatim>\<open>Equal\<close>. The credentials are read as \<^verbatim>\<open>t.target.Credentials.Username\<close>, a
  field access through the pointer, not through \<^verbatim>\<open>GetCredentials()\<close>: with either
  pointer \<^verbatim>\<open>nil\<close> the comparison panics.
\<close>

definition Equal :: "targetState \<Rightarrow> target_t \<Rightarrow> bool outcome" where
  "Equal t other =
     (if length (Addresses (target t)) \<noteq> length (Addresses other) then Returned False
      else if \<not> addrLoop (Addresses (target t)) 0 (Addresses other) then Returned False
      else (case Credentials (target t) of
              None \<Rightarrow> Panicked
            | Some c \<Rightarrow>
               (case Credentials other of
                  None \<Rightarrow> Panicked
                | Some oc \<Rightarrow>
                   if Username c \<noteq> Username oc then Returned False
                   else if Password c \<noteq> Password oc then Returned False
                   else Returned True)))"

subsection \<open>The store of protocol objects\<close>

text \<open>
  \<^verbatim>\<open>handleUpdate\<close> writes into the notification it is handed and into the
  \<^verbatim>\<open>Path\<close> its prefix points to, so both live in a store: every address holds an
  object (a Go pointer is \<^verbatim>\<open>nil\<close> or valid), and \<open>nextPath\<close> is the address the
  next \<^verbatim>\<open>&gnmipb.Path{}\<close> is allocated at.
\<close>

record heap =
  notifs :: "addr \<Rightarrow> notification"
  paths :: "addr \<Rightarrow> path"
  nextPath :: addr

text \<open>The zero value \<^verbatim>\<open>gnmipb.Path{}\<close>.\<close>

definition emptyPath :: path where
  "emptyPath = \<lparr>Element = [], Origin = [], Elem = [], Target = []\<rparr>"

text \<open>
  \<^verbatim>\<open>if v.Update.GetPrefix() == nil { v.Update.Prefix = &gnmipb.Path{} }\<close>:
  the result is the pointer \<^verbatim>\<open>v.Update.Prefix\<close> holds afterwards, and the store.
\<close>

definition ensurePrefix :: "addr \<Rightarrow> heap \<Rightarrow> addr \<times> heap" where
  "ensurePrefix a h =
     (case Prefix (notifs h a) of
        None \<Rightarrow>
          (nextPath h,
           h\<lparr>notifs := (notifs h)(a := (notifs h a)\<lparr>Prefix := Some (nextPath h)\<rparr>),
             paths := (paths h)(nextPath h := emptyPath),
             nextPath := Suc (nextPath h)\<rparr>)
      | Some p \<Rightarrow> (p, h))"

text \<open>
  \<^verbatim>\<open>if v.Update.Prefix.Target == "" { v.Update.Prefix.Target = t.name }\<close>,
  with \<open>p\<close> the prefix pointer.
\<close>

definition defaultTarget :: "string \<Rightarrow> addr \<Rightarrow> heap \<Rightarrow> heap" where
  "defaultTarget nm p h =
     (if Target (paths h p) = [] then h\<lparr>paths := (paths h)(p := (paths h p)\<lparr>Target := nm\<rparr>)\<rparr>
      else h)"

subsection \<open>Inbound messages and \<^verbatim>\<open>handleUpdate\<close>\<close>

text \<open>
  The \<^verbatim>\<open>Response\<close> oneof of a \<^verbatim>\<open>SubscribeResponse\<close>; \<open>ResponseUnset\<close> is the
  variant the \<^verbatim>\<open>switch\<close> sends to \<^verbatim>\<open>default\<close>. A \<^verbatim>\<open>proto.Message\<close> that is
  not a \<^verbatim>\<open>*gnmipb.SubscribeResponse\<close> is \<open>OtherMessage\<close>.
\<close>

datatype response =
  SubscribeResponse_Update addr
  | SubscribeResponse_SyncResponse bool
  | SubscribeResponse_Error
  | ResponseUnset

datatype message = SubscribeResponse response | OtherMessage

text \<open>
  \<^verbatim>\<open>handleUpdate\<close>. The first argument is the answer of the cache target to
  \<^verbatim>\<open>GnmiUpdate\<close>, should it be called: \<open>True\<close> when it returns an error. The result
  is the returned error (\<open>None\<close> is \<^verbatim>\<open>nil\<close>), the target state and the store.
\<close>

definition handleUpdate ::
  "bool \<Rightarrow> message \<Rightarrow> targetState \<times> heap \<Rightarrow> err option \<times> targetState \<times> heap" where
  "handleUpdate sinkFails msg th =
     (let t = fst th; h = snd th;
          t1 = (if \<not> connected t
                then t\<lparr>targetCache := targetCache t @ [Connect], connected := True\<rparr>
                else t)
      in case msg of
           OtherMessage \<Rightarrow> (Some FailedTypeAssert, t1, h)
         | SubscribeResponse resp \<Rightarrow>
            (case resp of
               SubscribeResponse_Update a \<Rightarrow>
                 (let p = fst (ensurePrefix a h);
                      h1 = snd (ensurePrefix a h);
                      h2 = defaultTarget (name t1) p h1
                  in if rejectUpdate (notifs h2 a) \<noteq> None then (None, t1, h2)
                     else
                       (let t2 = t1\<lparr>targetCache := targetCache t1
                                       @ [GnmiUpdate a (notifs h2 a) (paths h2 p)]\<rparr>
                        in if sinkFails then (Some CacheUpdateError, t2, h2)
                           else (None, t2, h2)))
             | SubscribeResponse_SyncResponse b \<Rightarrow>
                 (None, t1\<lparr>targetCache := targetCache t1 @ [Sync]\<rparr>, h)
             | SubscribeResponse_Error \<Rightarrow> (Some ErrorInResponse, t1, h)
             | ResponseUnset \<Rightarrow> (Some UnknownResponse, t1, h)))"

subsection \<open>\<^verbatim>\<open>disconnected\<close>, \<^verbatim>\<open>disconnect\<close>, \<^verbatim>\<open>reconnect\<close>, \<^verbatim>\<open>connect\<close>\<close>

definition disconnected :: "targetState \<Rightarrow> targetState" where
  "disconnected t = t\<lparr>connected := False, targetCache := targetCache t @ [Disconnect, Reset]\<rparr>"

text \<open>
  \<^verbatim>\<open>t.client.Close()\<close> belongs to the reconnect client of the gNMI library, which
  \<^verbatim>\<open>connect\<close> creates with \<^verbatim>\<open>t.disconnected\<close> as its disconnect callback. What
  the call does on a client that exists is an input of the model: it disconnects, which
  runs the callback, and returns \<^verbatim>\<open>nil\<close> (\<open>CloseReturns False\<close>) or an error
  (\<open>CloseReturns True\<close>), or it panics inside the library.
\<close>

datatype close_outcome = CloseReturns bool | ClosePanics

text \<open>
  \<^verbatim>\<open>t.client.Close()\<close>. On the \<^verbatim>\<open>nil\<close> client the method reads the fields of
  its receiver, which panics.
\<close>

definition clientClose ::
  "close_outcome \<Rightarrow> targetState \<Rightarrow> err option outcome \<times> targetState" where
  "clientClose co t =
     (case client t of
        None \<Rightarrow> (Panicked, t)
      | Some c \<Rightarrow>
         (case co of
            CloseReturns fails \<Rightarrow>
              (Returned (if fails then Some CloseError else None), disconnected t)
          | ClosePanics \<Rightarrow> (Panicked, t)))"

definition disconnect ::
  "close_outcome \<Rightarrow> targetState \<Rightarrow> err option outcome \<times> targetState" where
  "disconnect co t = (let t1 = t\<lparr>stopped := True\<rparr> in clientClose co t1)"

definition reconnect ::
  "close_outcome \<Rightarrow> targetState \<Rightarrow> err option outcome \<times> targetState" where
  "reconnect co t = clientClose co t"

text \<open>
  What \<^verbatim>\<open>connect\<close> meets: \<^verbatim>\<open>client.NewQuery\<close> fails, \<^verbatim>\<open>query.Validate\<close>
  fails, or the reconnect client with the given handle is created and
  \<^verbatim>\<open>Subscribe\<close> runs until it returns. The messages and disconnect callbacks the
  client delivers while \<^verbatim>\<open>Subscribe\<close> blocks are calls of \<^verbatim>\<open>handleUpdate\<close> and
  \<^verbatim>\<open>disconnected\<close>, modelled as operations of their own.
\<close>

datatype connect_env = NewQueryFails | ValidateFails | Subscribes nat

definition connect :: "connect_env \<Rightarrow> targetState \<Rightarrow> targetState" where
  "connect env t =
     (let t1 = t\<lparr>connecting := True\<rparr>
      in case env of
           NewQueryFails \<Rightarrow> t1
         | ValidateFails \<Rightarrow> t1
         | Subscribes c \<Rightarrow> t1\<lparr>client := Some c\<rparr>)"

subsection \<open>\<^verbatim>\<open>connectWithLock\<close>\<close>

text \<open>The calls \<^verbatim>\<open>connectWithLock\<close> makes, in order.\<close>

datatype gate_event =
  SlotTryAcquire bool
  | LockTry bool
  | CallConnect
  | SlotRelease
  | LockUnlock

text \<open>
  What one iteration of the loop meets: the answer \<^verbatim>\<open>connectionSlot.TryAcquire(1)\<close>
  gives if it is called, the answer \<^verbatim>\<open>lock.Try()\<close> gives if it is called, what
  \<^verbatim>\<open>connect\<close> meets if it is called, and whether another goroutine's
  \<^verbatim>\<open>disconnect\<close> has assigned \<^verbatim>\<open>t.stopped = true\<close> by the time the loop
  condition is read again.
\<close>

record iteration =
  slotFree :: bool
  lockFree :: bool
  connectEnv :: connect_env
  stopRequested :: bool

text \<open>
  The loop variables: \<^verbatim>\<open>connectionSlotAcquired\<close>, \<^verbatim>\<open>connectionLockAcquired\<close>,
  the target state, and the calls made so far.
\<close>

type_synonym loop_state = "bool \<times> bool \<times> targetState \<times> gate_event list"

text \<open>The body of the \<^verbatim>\<open>for !t.stopped\<close> loop.\<close>

definition loopBody :: "iteration \<Rightarrow> loop_state \<Rightarrow> loop_state" where
  "loopBody e s =
     (case s of (slot, lck, t, tr) \<Rightarrow>
        (let slot1 = (if \<not> slot then slotFree e else slot);
             tr1 = (if \<not> slot then tr @ [SlotTryAcquire (slotFree e)] else tr);
             lck1 = (if slot1 \<and> \<not> lck then lockFree e else lck);
             tr2 = (if slot1 \<and> \<not> lck then tr1 @ [LockTry (lockFree e)] else tr1);
             t1 = (if slot1 \<and> lck1 then connect (connectEnv e) t else t);
             tr3 = (if slot1 \<and> lck1 then tr2 @ [CallConnect] else tr2);
             t2 = (if stopRequested e then t1\<lparr>stopped := True\<rparr> else t1)
         in (slot1, lck1, t2, tr3)))"

text \<open>
  The loop, one list element per iteration. It may spin forever; \<open>None\<close> says that
  the listed iterations passed without the loop seeing \<^verbatim>\<open>t.stopped\<close>.
\<close>

fun connectLoop :: "iteration list \<Rightarrow> loop_state \<Rightarrow> loop_state option" where
  "connectLoop [] s = (if stopped (fst (snd (snd s))) then Some s else None)"
| "connectLoop (e # es) s =
     (if stopped (fst (snd (snd s))) then Some s else connectLoop es (loopBody e s))"

text \<open>
  \<^verbatim>\<open>connectWithLock\<close>: the loop from both flags \<^verbatim>\<open>false\<close>, then the two
  releases. The result gives the final values of the two flags, the target state and all
  calls made.
\<close>

definition connectWithLock :: "iteration list \<Rightarrow> targetState \<Rightarrow> loop_state option" where
  "connectWithLock es t =
     (case connectLoop es (False, False, t, []) of
        None \<Rightarrow> None
      | Some (slot, lck, t', tr) \<Rightarrow>
          Some (slot, lck, t',
                tr @ (if slot then [SlotRelease] else []) @ (if lck then [LockUnlock] else [])))"

subsection \<open>Sequences of operations on one \<^verbatim>\<open>TargetState\<close>\<close>

text \<open>
  What the transport delivers to one target state: a message, with the answer the cache
  target gives to \<^verbatim>\<open>GnmiUpdate\<close> for it, or the disconnect callback.
\<close>

datatype event = Inbound message bool | TransportClosed

fun deliver :: "event \<Rightarrow> targetState \<times> heap \<Rightarrow> targetState \<times> heap" where
  "deliver (Inbound m sinkFails) s = snd (handleUpdate sinkFails m s)"
| "deliver TransportClosed s = (disconnected (fst s), snd s)"

fun deliverAll :: "event list \<Rightarrow> targetState \<times> heap \<Rightarrow> targetState \<times> heap" where
  "deliverAll [] s = s"
| "deliverAll (e # es) s = deliverAll es (deliver e s)"

text \<open>
  The receivers that assign a field of the target state, as operations.
  \<^verbatim>\<open>connectWithLock\<close> assigns none itself: it changes the state through its calls of
  \<^verbatim>\<open>connect\<close>.
\<close>

datatype op =
  OpConnect connect_env
  | OpDisconnect close_outcome
  | OpDisconnected
  | OpReconnect close_outcome
  | OpHandleUpdate message bool

text \<open>One operation: whether it returned or panicked, and the state it left.\<close>

fun execOp :: "op \<Rightarrow> targetState \<times> heap \<Rightarrow> unit outcome \<times> targetState \<times> heap" where
  "execOp (OpConnect env) s = (Returned (), connect env (fst s), snd s)"
| "execOp (OpDisconnect co) s =
     (case disconnect co (fst s) of
        (Panicked, t') \<Rightarrow> (Panicked, t', snd s)
      | (Returned e, t') \<Rightarrow> (Returned (), t', snd s))"
| "execOp OpDisconnected s = (Returned (), disconnected (fst s), snd s)"
| "execOp (OpReconnect co) s =
     (case reconnect co (fst s) of
        (Panicked, t') \<Rightarrow> (Panicked, t', snd s)
      | (Returned e, t') \<Rightarrow> (Returned (), t', snd s))"
| "execOp (OpHandleUpdate m sinkFails) s = (Returned (), snd (handleUpdate sinkFails m s))"

text \<open>A run of operations, none of which panics; \<open>None\<close> when one does.\<close>

fun execOps :: "op list \<Rightarrow> targetState \<times> heap \<Rightarrow> (targetState \<times> heap) option" where
  "execOps [] s = Some s"
| "execOps (x # xs) s =
     (case execOp x s of
        (Panicked, s') \<Rightarrow> None
      | (Returned u, s') \<Rightarrow> execOps xs s')"

subsection \<open>Properties of call sequences\<close>

text \<open>
  Both gates are held after the calls \<open>pre\<close>: the slot and the lock were each acquired
  by a successful try, and neither has been given back.
\<close>

definition held :: "gate_event list \<Rightarrow> bool" where
  "held pre \<longleftrightarrow> SlotTryAcquire True \<in> set pre \<and> LockTry True \<in> set pre
      \<and> SlotRelease \<notin> set pre \<and> LockUnlock \<notin> set pre"

text \<open>Every call of \<^verbatim>\<open>connect\<close> in \<open>tr\<close> is made with both gates held.\<close>

definition callsGuarded :: "gate_event list \<Rightarrow> bool" where
  "callsGuarded tr \<longleftrightarrow> (\<forall>pre post. tr = pre @ CallConnect # post \<longrightarrow> held pre)"

text \<open>
  The invariant of the loop of \<^verbatim>\<open>connectWithLock\<close>: each flag says whether its
  try has succeeded, nothing was given back, and every \<^verbatim>\<open>connect\<close> was guarded.
\<close>

definition loopInv :: "loop_state \<Rightarrow> bool" where
  "loopInv s \<longleftrightarrow> (case s of (slot, lck, t, tr) \<Rightarrow>
      (slot \<longleftrightarrow> SlotTryAcquire True \<in> set tr) \<and> (lck \<longleftrightarrow> LockTry True \<in> set tr)
      \<and> SlotRelease \<notin> set tr \<and> LockUnlock \<notin> set tr \<and> callsGuarded tr)"

text \<open>
  The cache target as the calls see it: whether it is connected after the calls \<open>xs\<close>,
  having been connected or not (\<open>c\<close>) before them.
\<close>

fun connAfter :: "bool \<Rightarrow> sink_call list \<Rightarrow> bool" where
  "connAfter c [] = c"
| "connAfter c (Connect # xs) = connAfter True xs"
| "connAfter c (Disconnect # xs) = connAfter False xs"
| "connAfter c (x # xs) = connAfter c xs"

text \<open>The calls that deliver data: \<^verbatim>\<open>Sync\<close> and \<^verbatim>\<open>GnmiUpdate\<close>.\<close>

fun needsConnection :: "sink_call \<Rightarrow> bool" where
  "needsConnection Sync = True"
| "needsConnection (GnmiUpdate a n p) = True"
| "needsConnection x = False"

text \<open>
  A well-ordered sequence of calls: \<^verbatim>\<open>Connect\<close> only while not connected, data only
  while connected.
\<close>

fun sinkOK :: "bool \<Rightarrow> sink_call list \<Rightarrow> bool" where
  "sinkOK c [] = True"
| "sinkOK c (x # xs) =
     ((if x = Connect then \<not> c else if needsConnection x then c else True)
      \<and> sinkOK (connAfter c [x]) xs)"

subsection \<open>Example inputs\<close>

definition exampleState :: targetState where
  "exampleState = \<lparr>name = ''router1'', targetCache = [], connected = False, connecting = False,
      client = None, stopped = False,
      target = \<lparr>Addresses = [''10.0.0.1:9339''],
                Credentials = Some \<lparr>Username = ''admin'', Password = ''secret''\<rparr>\<rparr>\<rparr>"

definition elem :: "string \<Rightarrow> pathElem" where
  "elem n = \<lparr>Name = n, Key = Map.empty\<rparr>"

definition keyedElem :: "string \<Rightarrow> string \<Rightarrow> pathElem" where
  "keyedElem n v = \<lparr>Name = n, Key = [''name'' \<mapsto> v]\<rparr>"

definition pathOf :: "pathElem list \<Rightarrow> string \<Rightarrow> path" where
  "pathOf es tgt = \<lparr>Element = [], Origin = [], Elem = es, Target = tgt\<rparr>"

definition updateOf :: "pathElem list \<Rightarrow> update_t" where
  "updateOf es = \<lparr>Path = Some (pathOf es []), Val = ''up'', Duplicates = 0\<rparr>"

definition notificationOf :: "addr option \<Rightarrow> update_t list \<Rightarrow> notification" where
  "notificationOf pre us =
     \<lparr>Timestamp = 0, Prefix = pre, Alias = [], Update = us, Delete = [], Atomic = False\<rparr>"

text \<open>
  A store with four notifications: at 0 one well-formed update and no prefix; at 1 a
  well-formed update followed by a \<^verbatim>\<open>netconf-state\<close> one, no prefix; at 2 a prefix
  with an empty target; at any other address a prefix whose target is \<^verbatim>\<open>router9\<close>.
\<close>

definition exampleHeap :: heap where
  "exampleHeap =
     \<lparr>notifs = (\<lambda>a.
         if a = 0 then notificationOf None [updateOf [elem ''interfaces'', keyedElem ''interface'' ''eth0'']]
         else if a = 1 then notificationOf None
           [updateOf [elem ''interfaces'', keyedElem ''interface'' ''eth0''],
            updateOf [elem ''netconf-state'', elem ''schemas'']]
         else if a = 2 then notificationOf (Some 0)
           [updateOf [elem ''interfaces'', keyedElem ''interface'' ''eth0'']]
         else notificationOf (Some 1)
           [updateOf [elem ''interfaces'', keyedElem ''interface'' ''eth0'']]),
      paths = (\<lambda>p. if p = 1 then pathOf [] ''router9'' else pathOf [] []),
      nextPath = 2\<rparr>"

text \<open>
  A sync signal, a disconnect, and a sync signal again.
\<close>

definition exampleEvents :: "event list" where
  "exampleEvents =
     [Inbound (SubscribeResponse (SubscribeResponse_SyncResponse True)) False,
      TransportClosed,
      Inbound (SubscribeResponse (SubscribeResponse_SyncResponse True)) False]"

text \<open>
  Three iterations: the slot is taken, then the lock is taken, then both are free and a
  disconnect arrives while \<^verbatim>\<open>connect\<close> runs.
\<close>

definition exampleSchedule :: "iteration list" where
  "exampleSchedule =
     [\<lparr>slotFree = False, lockFree = True, connectEnv = Subscribes 7, stopRequested = False\<rparr>,
      \<lparr>slotFree = True, lockFree = False, connectEnv = Subscribes 7, stopRequested = False\<rparr>,
      \<lparr>slotFree = True, lockFree = True, connectEnv = Subscribes 7, stopRequested = True\<rparr>]"

section \<open>The acquisition loop\<close>

lemma callsGuarded_Nil: "callsGuarded []"
  by (simp add: callsGuarded_def)

lemma callsGuarded_snoc:
  "callsGuarded (tr @ [x]) \<longleftrightarrow> callsGuarded tr \<and> (x = CallConnect \<longrightarrow> held tr)"
proof
  assume g: "callsGuarded (tr @ [x])"
  show "callsGuarded tr \<and> (x = CallConnect \<longrightarrow> held tr)"
  proof (intro conjI impI)
    show "callsGuarded tr"
      unfolding callsGuarded_def
    proof (intro allI impI)
      fix pre post assume "tr = pre @ CallConnect # post"
      then have "tr @ [x] = pre @ CallConnect # (post @ [x])" by simp
      with g show "held pre" unfolding callsGuarded_def by blast
    qed
  next
    assume "x = CallConnect"
    then have "tr @ [x] = tr @ CallConnect # []" by simp
    with g show "held tr" unfolding callsGuarded_def by blast
  qed
next
  assume a: "callsGuarded tr \<and> (x = CallConnect \<longrightarrow> held tr)"
  show "callsGuarded (tr @ [x])"
    unfolding callsGuarded_def
  proof (intro allI impI)
    fix pre post assume e: "tr @ [x] = pre @ CallConnect # post"
    show "held pre"
    proof (cases post rule: rev_cases)
      case Nil
      with e have "tr = pre" "x = CallConnect" by simp_all
      with a show ?thesis by simp
    next
      case (snoc post' y)
      with e have "tr @ [x] = (pre @ CallConnect # post') @ [y]" by simp
      then have "tr = pre @ CallConnect # post'" by (simp only: append1_eq_conv)
      with a show ?thesis unfolding callsGuarded_def by blast
    qed
  qed
qed

lemma callsGuarded_snoc2:
  "callsGuarded (tr @ [x, y]) \<longleftrightarrow>
     callsGuarded tr \<and> (x = CallConnect \<longrightarrow> held tr) \<and> (y = CallConnect \<longrightarrow> held (tr @ [x]))"
  using callsGuarded_snoc[of "tr @ [x]" y] callsGuarded_snoc[of tr x] by simp

lemma callsGuarded_snoc3:
  "callsGuarded (tr @ [x, y, z]) \<longleftrightarrow>
     callsGuarded tr \<and> (x = CallConnect \<longrightarrow> held tr) \<and> (y = CallConnect \<longrightarrow> held (tr @ [x]))
     \<and> (z = CallConnect \<longrightarrow> held (tr @ [x, y]))"
  using callsGuarded_snoc[of "tr @ [x, y]" z] callsGuarded_snoc2[of tr x y] by simp

lemma loopBody_inv: "loopInv s \<Longrightarrow> loopInv (loopBody e s)"
proof -
  assume a: "loopInv s"
  obtain slot lck t tr where s: "s = (slot, lck, t, tr)" by (cases s) auto
  show ?thesis using a unfolding s
    by (cases slot; cases lck; cases "slotFree e"; cases "lockFree e")
       (simp_all add: loopInv_def loopBody_def Let_def callsGuarded_snoc callsGuarded_snoc2
          callsGuarded_snoc3 held_def)
qed

lemma connectLoop_inv:
  "connectLoop es s = Some s' \<Longrightarrow> loopInv s \<Longrightarrow> loopInv s' \<and> stopped (fst (snd (snd s')))"
proof (induction es arbitrary: s)
  case Nil
  then show ?case by (simp split: if_splits)
next
  case (Cons e es)
  show ?case
  proof (cases "stopped (fst (snd (snd s)))")
    case True
    with Cons.prems show ?thesis by simp
  next
    case False
    with Cons.prems have "connectLoop es (loopBody e s) = Some s'" by simp
    moreover have "loopInv (loopBody e s)" using Cons.prems(2) by (rule loopBody_inv)
    ultimately show ?thesis by (rule Cons.IH)
  qed
qed

text \<open>
  The loop returns once \<^verbatim>\<open>stopped\<close> is set: if a disconnect arrives during one of
  the listed iterations, the list is long enough.
\<close>

lemma loopBody_stop: "stopRequested e \<Longrightarrow> stopped (fst (snd (snd (loopBody e s))))"
  by (cases s) (simp add: loopBody_def Let_def)

lemma connectLoop_stopped: "stopped (fst (snd (snd s))) \<Longrightarrow> connectLoop es s = Some s"
proof (cases es)
  case Nil
  assume "stopped (fst (snd (snd s)))"
  with Nil show ?thesis by simp
next
  case (Cons e es')
  assume "stopped (fst (snd (snd s)))"
  with Cons show ?thesis by simp
qed

lemma connectLoop_returns:
  "\<exists>e \<in> set es. stopRequested e \<Longrightarrow> \<exists>r. connectLoop es s = Some r"
proof (induction es arbitrary: s)
  case Nil
  then show ?case by simp
next
  case (Cons e es)
  show ?case
  proof (cases "stopped (fst (snd (snd s)))")
    case True
    from connectLoop_stopped[OF this] show ?thesis by (rule exI)
  next
    case False
    then have step: "connectLoop (e # es) s = connectLoop es (loopBody e s)" by simp
    show ?thesis
    proof (cases "stopRequested e")
      case True
      from connectLoop_stopped[OF loopBody_stop[OF this]]
      have "connectLoop es (loopBody e s) = Some (loopBody e s)" .
      with step have "connectLoop (e # es) s = Some (loopBody e s)" by (rule trans)
      then show ?thesis by (rule exI)
    next
      case no: False
      with Cons.prems have "\<exists>e \<in> set es. stopRequested e" by simp
      from Cons.IH[OF this] obtain r where "connectLoop es (loopBody e s) = Some r" by blast
      with step have "connectLoop (e # es) s = Some r" by (rule trans)
      then show ?thesis by (rule exI)
    qed
  qed
qed

text \<open>
  C1. When \<^verbatim>\<open>connectWithLock\<close> returns with the calls \<open>tr\<close>: before every call of
  \<^verbatim>\<open>connect\<close> the slot and the lock were both acquired by a successful try and
  neither was given back; the loop has exited with \<^verbatim>\<open>stopped\<close> true; the slot is
  released if and only if it was acquired, and the lock is unlocked if and only if it was
  acquired (the two flags say so as well).
\<close>

theorem connectWithLock_gated:
  assumes "connectWithLock es t = Some (slot, lck, t', tr)"
  shows "(\<forall>pre post. tr = pre @ CallConnect # post \<longrightarrow>
            SlotTryAcquire True \<in> set pre \<and> LockTry True \<in> set pre
            \<and> SlotRelease \<notin> set pre \<and> LockUnlock \<notin> set pre)
       \<and> stopped t'
       \<and> (SlotRelease \<in> set tr \<longleftrightarrow> SlotTryAcquire True \<in> set tr)
       \<and> (LockUnlock \<in> set tr \<longleftrightarrow> LockTry True \<in> set tr)
       \<and> (slot \<longleftrightarrow> SlotTryAcquire True \<in> set tr) \<and> (lck \<longleftrightarrow> LockTry True \<in> set tr)"
proof -
  from assms obtain tr0 where
    l: "connectLoop es (False, False, t, []) = Some (slot, lck, t', tr0)" and
    tr: "tr = tr0 @ (if slot then [SlotRelease] else []) @ (if lck then [LockUnlock] else [])"
    by (auto simp: connectWithLock_def split: option.splits)
  have "loopInv (False, False, t, [])" by (simp add: loopInv_def callsGuarded_Nil)
  from connectLoop_inv[OF l this] have inv: "loopInv (slot, lck, t', tr0)" and st: "stopped t'"
    by simp_all
  from inv have i1: "slot \<longleftrightarrow> SlotTryAcquire True \<in> set tr0"
    and i2: "lck \<longleftrightarrow> LockTry True \<in> set tr0"
    and i3: "SlotRelease \<notin> set tr0" and i4: "LockUnlock \<notin> set tr0"
    and i5: "callsGuarded tr0"
    by (simp_all add: loopInv_def)
  have g: "callsGuarded tr"
    using i5 unfolding tr
    by (cases slot; cases lck) (simp_all add: callsGuarded_snoc callsGuarded_snoc2)
  have a: "\<forall>pre post. tr = pre @ CallConnect # post \<longrightarrow>
            SlotTryAcquire True \<in> set pre \<and> LockTry True \<in> set pre
            \<and> SlotRelease \<notin> set pre \<and> LockUnlock \<notin> set pre"
    using g unfolding callsGuarded_def held_def .
  have b: "SlotRelease \<in> set tr \<longleftrightarrow> SlotTryAcquire True \<in> set tr"
    using i1 i3 unfolding tr by (cases slot; cases lck) simp_all
  have c: "LockUnlock \<in> set tr \<longleftrightarrow> LockTry True \<in> set tr"
    using i2 i4 unfolding tr by (cases slot; cases lck) simp_all
  have d: "slot \<longleftrightarrow> SlotTryAcquire True \<in> set tr"
    using i1 unfolding tr by (cases slot; cases lck) simp_all
  have e: "lck \<longleftrightarrow> LockTry True \<in> set tr"
    using i2 unfolding tr by (cases slot; cases lck) simp_all
  from a st b c d e show ?thesis by blast
qed

theorem connectWithLock_gated_witness:
  "connectWithLock exampleSchedule exampleState =
     Some (True, True, exampleState\<lparr>connecting := True, client := Some 7, stopped := True\<rparr>,
       [SlotTryAcquire False, SlotTryAcquire True, LockTry False, LockTry True, CallConnect,
        SlotRelease, LockUnlock])
   \<and> stopped (exampleState\<lparr>connecting := True, client := Some 7, stopped := True\<rparr>)
   \<and> SlotTryAcquire True \<in> set [SlotTryAcquire False, SlotTryAcquire True, LockTry False, LockTry True]
   \<and> LockTry True \<in> set [SlotTryAcquire False, SlotTryAcquire True, LockTry False, LockTry True]"
proof -
  have r: "connectWithLock exampleSchedule exampleState =
     Some (True, True, exampleState\<lparr>connecting := True, client := Some 7, stopped := True\<rparr>,
       [SlotTryAcquire False, SlotTryAcquire True, LockTry False, LockTry True, CallConnect,
        SlotRelease, LockUnlock])"
    by (simp add: connectWithLock_def exampleSchedule_def exampleState_def loopBody_def
          connect_def)
  from connectWithLock_gated[OF r] r show ?thesis by simp
qed

section \<open>Equality of target descriptors\<close>

lemma addrLoop_take_drop:
  "i + length xs \<le> length ys \<Longrightarrow> addrLoop xs i ys = (xs = take (length xs) (drop i ys))"
proof (induction xs arbitrary: i)
  case Nil
  then show ?case by simp
next
  case (Cons a xs)
  then have "i < length ys" by simp
  then have d: "drop i ys = ys ! i # drop (Suc i) ys" by (simp add: Cons_nth_drop_Suc)
  from Cons show ?case by (auto simp: d)
qed

text \<open>
  With credentials present on both sides \<^verbatim>\<open>Equal\<close> returns, and returns true exactly
  when the addresses agree elementwise and user name and password agree.
\<close>

lemma Equal_with_credentials:
  "Credentials (target t) = Some c \<Longrightarrow> Credentials other = Some oc \<Longrightarrow>
   Equal t other =
     Returned (Addresses (target t) = Addresses other
               \<and> Username c = Username oc \<and> Password c = Password oc)"
  using addrLoop_take_drop[of 0 "Addresses (target t)" "Addresses other"]
  by (auto simp: Equal_def)

text \<open>
  C3. The specification has \<^verbatim>\<open>Equal\<close> return false when credentials are present on one side
  and absent on the other. On the example target state, whose credentials are present,
  compared with a descriptor of the same one address and no credentials, \<^verbatim>\<open>Equal\<close>
  does not return false: it panics, reading \<^verbatim>\<open>other.Credentials.Username\<close> through
  the \<^verbatim>\<open>nil\<close> pointer.
\<close>

theorem Equal_absent_credentials_panics:
  "Equal exampleState \<lparr>Addresses = [''10.0.0.1:9339''], Credentials = None\<rparr> = Panicked"
  by (simp add: Equal_def exampleState_def)

section \<open>The rejection filter\<close>

lemma rejectLoop_mem:
  "u \<in> set us \<Longrightarrow> rejectPath (getPathElem u) \<noteq> None \<Longrightarrow> rejectLoop us \<noteq> None"
  by (induction us) (auto split: option.splits)

text \<open>
  C4. For a notification whose one update has the given path, whatever its other fields:
  the path \<^verbatim>\<open>[interfaces, interface{name=interface}]\<close> is rejected; the path
  \<^verbatim>\<open>[network-instances, network-instance{name=network-instance}]\<close> is rejected; the
  path \<^verbatim>\<open>[interfaces, interface{name=eth0}]\<close> is accepted; a path that starts with
  \<^verbatim>\<open>netconf-state\<close> and has at least one further element is rejected.
\<close>

theorem rejectUpdate_concrete_cases:
  "rejectUpdate (n\<lparr>Update := [u\<lparr>Path := Some (p\<lparr>Elem :=
      [elem ''interfaces'', keyedElem ''interface'' ''interface'']\<rparr>)\<rparr>]\<rparr>)
     = Some BugAristaInterfacePath
   \<and> rejectUpdate (n\<lparr>Update := [u\<lparr>Path := Some (p\<lparr>Elem :=
      [elem ''network-instances'', keyedElem ''network-instance'' ''network-instance'']\<rparr>)\<rparr>]\<rparr>)
     = Some BugAristaIsisAdjacencyPath
   \<and> rejectUpdate (n\<lparr>Update := [u\<lparr>Path := Some (p\<lparr>Elem :=
      [elem ''interfaces'', keyedElem ''interface'' ''eth0'']\<rparr>)\<rparr>]\<rparr>)
     = None
   \<and> rejectUpdate (n\<lparr>Update := [u\<lparr>Path := Some (p\<lparr>Elem :=
      \<lparr>Name = ''netconf-state'', Key = k\<rparr> # x # rest\<rparr>)\<rparr>]\<rparr>)
     = Some BugNetconfStatePath"
  by (simp add: rejectUpdate_def rejectPath_def getPathElem_def elem_def keyedElem_def)

text \<open>
  C5, as the code has it. The test for \<^verbatim>\<open>netconf-state\<close> stands inside
  \<^verbatim>\<open>if len(path) >= 2\<close>: a notification is rejected when one of its updates has a
  path of at least two elements whose first element is named \<^verbatim>\<open>netconf-state\<close>.
\<close>

theorem rejectUpdate_netconf_state:
  assumes "u \<in> set (Update n)"
    and "length (getPathElem u) \<ge> 2"
    and "Name (getPathElem u ! 0) = ''netconf-state''"
  shows "rejectUpdate n \<noteq> None"
  unfolding rejectUpdate_def
  using assms by (intro rejectLoop_mem[of u]) (auto simp: rejectPath_def)

theorem rejectUpdate_netconf_state_witness:
  "updateOf [elem ''netconf-state'', elem ''schemas''] \<in> set (Update (notifs exampleHeap 1))
   \<and> length (getPathElem (updateOf [elem ''netconf-state'', elem ''schemas''])) \<ge> 2
   \<and> Name (getPathElem (updateOf [elem ''netconf-state'', elem ''schemas'']) ! 0) = ''netconf-state''
   \<and> rejectUpdate (notifs exampleHeap 1) \<noteq> None"
proof -
  have a: "updateOf [elem ''netconf-state'', elem ''schemas''] \<in> set (Update (notifs exampleHeap 1))"
    by (simp add: exampleHeap_def notificationOf_def)
  have b: "length (getPathElem (updateOf [elem ''netconf-state'', elem ''schemas''])) \<ge> 2"
    by (simp add: getPathElem_def updateOf_def pathOf_def)
  have c: "Name (getPathElem (updateOf [elem ''netconf-state'', elem ''schemas'']) ! 0) = ''netconf-state''"
    by (simp add: getPathElem_def updateOf_def pathOf_def elem_def)
  from rejectUpdate_netconf_state[OF a b c] a b c show ?thesis by simp
qed

text \<open>
  C5 as the specification states it, with no element after \<^verbatim>\<open>netconf-state\<close>, fails: the
  notification whose one update has the path \<^verbatim>\<open>[netconf-state]\<close> is accepted.
\<close>

theorem rejectUpdate_netconf_state_alone_accepted:
  "Name (getPathElem (updateOf [elem ''netconf-state'']) ! 0) = ''netconf-state''
   \<and> length (getPathElem (updateOf [elem ''netconf-state''])) = 1
   \<and> rejectUpdate (notificationOf None [updateOf [elem ''netconf-state'']]) = None"
  by (simp add: rejectUpdate_def rejectPath_def getPathElem_def updateOf_def pathOf_def
        elem_def notificationOf_def)

section \<open>Handling one inbound message\<close>

lemma Update_after_prefix:
  "Update (notifs (defaultTarget nm (fst (ensurePrefix a h)) (snd (ensurePrefix a h))) a)
     = Update (notifs h a)"
  by (simp add: defaultTarget_def ensurePrefix_def split: option.splits)

lemma reject_after_prefix:
  "rejectUpdate (notifs (defaultTarget nm (fst (ensurePrefix a h)) (snd (ensurePrefix a h))) a)
     = rejectUpdate (notifs h a)"
  by (simp add: rejectUpdate_def Update_after_prefix)

text \<open>\<^verbatim>\<open>handleUpdate\<close> on a data update, with its two outcomes side by side.\<close>

lemma handleUpdate_Update:
  "handleUpdate sinkFails (SubscribeResponse (SubscribeResponse_Update a)) (t, h) =
     (let p = fst (ensurePrefix a h);
          h2 = defaultTarget (name t) p (snd (ensurePrefix a h));
          cs = targetCache t @ (if connected t then [] else [Connect])
      in if rejectUpdate (notifs h a) \<noteq> None
         then (None, t\<lparr>targetCache := cs, connected := True\<rparr>, h2)
         else (if sinkFails then Some CacheUpdateError else None,
               t\<lparr>targetCache := cs @ [GnmiUpdate a (notifs h2 a) (paths h2 p)],
                 connected := True\<rparr>, h2))"
  by (cases "connected t") (simp_all add: handleUpdate_def Let_def reject_after_prefix)

lemma handleUpdate_triple:
  "handleUpdate f m s =
     (fst (handleUpdate f m s), fst (snd (handleUpdate f m s)), snd (snd (handleUpdate f m s)))"
  by simp

text \<open>
  C6. When the filter matches an update \<open>u\<close> of the notification, \<^verbatim>\<open>handleUpdate\<close>
  returns \<^verbatim>\<open>nil\<close>, and the cache target receives no \<^verbatim>\<open>GnmiUpdate\<close> call: the only
  call it may receive is the \<^verbatim>\<open>Connect\<close> of a target state that was not connected.
\<close>

theorem handleUpdate_rejected_dropped:
  assumes "u \<in> set (Update (notifs h a))" and "rejectPath (getPathElem u) \<noteq> None"
  shows "fst (handleUpdate sinkFails (SubscribeResponse (SubscribeResponse_Update a)) (t, h)) = None
       \<and> targetCache (fst (snd (handleUpdate sinkFails
             (SubscribeResponse (SubscribeResponse_Update a)) (t, h))))
           = targetCache t @ (if connected t then [] else [Connect])"
proof -
  from assms have "rejectUpdate (notifs h a) \<noteq> None"
    unfolding rejectUpdate_def by (rule rejectLoop_mem)
  then show ?thesis
    by (simp add: handleUpdate_Update Let_def)
qed

theorem handleUpdate_rejected_dropped_witness:
  "updateOf [elem ''netconf-state'', elem ''schemas''] \<in> set (Update (notifs exampleHeap 1))
   \<and> rejectPath (getPathElem (updateOf [elem ''netconf-state'', elem ''schemas''])) \<noteq> None
   \<and> fst (handleUpdate False (SubscribeResponse (SubscribeResponse_Update 1))
           (exampleState, exampleHeap)) = None
   \<and> targetCache (fst (snd (handleUpdate False (SubscribeResponse (SubscribeResponse_Update 1))
           (exampleState, exampleHeap)))) = [Connect]"
proof -
  have a: "updateOf [elem ''netconf-state'', elem ''schemas''] \<in> set (Update (notifs exampleHeap 1))"
    by (simp add: exampleHeap_def notificationOf_def)
  have b: "rejectPath (getPathElem (updateOf [elem ''netconf-state'', elem ''schemas''])) \<noteq> None"
    by (simp add: rejectPath_def getPathElem_def updateOf_def pathOf_def elem_def)
  from handleUpdate_rejected_dropped[OF a b, of False exampleState] a b show ?thesis
    by (simp add: exampleState_def)
qed

text \<open>
  C7, as the code has it. For a data update that the rejection filter accepts, the cache
  target receives one \<^verbatim>\<open>GnmiUpdate\<close> call (after the \<^verbatim>\<open>Connect\<close> of a target state
  that was not connected): with the target designator set to the name of the target state
  when the prefix is missing or its target is empty, and with notification and prefix as
  they came when the prefix has a non-empty target.
\<close>

theorem handleUpdate_prefix_defaulting:
  assumes "rejectUpdate (notifs h a) = None"
    and "handleUpdate sinkFails (SubscribeResponse (SubscribeResponse_Update a)) (t, h)
           = (e, t', h')"
  shows "\<exists>n' p'.
           targetCache t' = targetCache t @ (if connected t then [] else [Connect])
                              @ [GnmiUpdate a n' p']
         \<and> (Prefix (notifs h a) = None \<longrightarrow> Target p' = name t)
         \<and> (\<forall>q. Prefix (notifs h a) = Some q \<longrightarrow>
               (Target (paths h q) = [] \<longrightarrow> Target p' = name t)
             \<and> (Target (paths h q) \<noteq> [] \<longrightarrow> p' = paths h q \<and> n' = notifs h a))"
  using assms
  by (auto simp: handleUpdate_Update Let_def ensurePrefix_def defaultTarget_def emptyPath_def)

lemma exampleHeap_accepts:
  "rejectUpdate (notifs exampleHeap 0) = None"
  "rejectUpdate (notifs exampleHeap 2) = None"
  "rejectUpdate (notifs exampleHeap 3) = None"
  by (simp_all add: exampleHeap_def notificationOf_def rejectUpdate_def rejectPath_def
        getPathElem_def updateOf_def pathOf_def elem_def keyedElem_def)

lemma exampleHeap_prefixes:
  "Prefix (notifs exampleHeap 0) = None"
  "Prefix (notifs exampleHeap 1) = None"
  "Prefix (notifs exampleHeap 2) = Some 0"
  "Prefix (notifs exampleHeap 3) = Some 1"
  "Target (paths exampleHeap 0) = []"
  "Target (paths exampleHeap 1) = ''router9''"
  by (simp_all add: exampleHeap_def notificationOf_def pathOf_def)

theorem handleUpdate_prefix_defaulting_witness:
  "rejectUpdate (notifs exampleHeap 0) = None \<and> Prefix (notifs exampleHeap 0) = None
   \<and> (\<exists>n' p'. targetCache (fst (snd (handleUpdate False
           (SubscribeResponse (SubscribeResponse_Update 0)) (exampleState, exampleHeap))))
         = [Connect, GnmiUpdate 0 n' p'] \<and> Target p' = ''router1'')
   \<and> rejectUpdate (notifs exampleHeap 2) = None \<and> Prefix (notifs exampleHeap 2) = Some 0
   \<and> Target (paths exampleHeap 0) = []
   \<and> (\<exists>n' p'. targetCache (fst (snd (handleUpdate False
           (SubscribeResponse (SubscribeResponse_Update 2)) (exampleState, exampleHeap))))
         = [Connect, GnmiUpdate 2 n' p'] \<and> Target p' = ''router1'')
   \<and> rejectUpdate (notifs exampleHeap 3) = None \<and> Prefix (notifs exampleHeap 3) = Some 1
   \<and> Target (paths exampleHeap 1) = ''router9''
   \<and> (\<exists>n' p'. targetCache (fst (snd (handleUpdate False
           (SubscribeResponse (SubscribeResponse_Update 3)) (exampleState, exampleHeap))))
         = [Connect, GnmiUpdate 3 n' p'] \<and> p' = paths exampleHeap 1 \<and> n' = notifs exampleHeap 3)"
proof -
  have a: "\<exists>n' p'. targetCache (fst (snd (handleUpdate False
           (SubscribeResponse (SubscribeResponse_Update 0)) (exampleState, exampleHeap))))
         = [Connect, GnmiUpdate 0 n' p'] \<and> Target p' = ''router1''"
    using handleUpdate_prefix_defaulting[OF exampleHeap_accepts(1) handleUpdate_triple,
            of False exampleState]
      exampleHeap_prefixes
    by (simp add: exampleState_def)
  have b: "\<exists>n' p'. targetCache (fst (snd (handleUpdate False
           (SubscribeResponse (SubscribeResponse_Update 2)) (exampleState, exampleHeap))))
         = [Connect, GnmiUpdate 2 n' p'] \<and> Target p' = ''router1''"
    using handleUpdate_prefix_defaulting[OF exampleHeap_accepts(2) handleUpdate_triple,
            of False exampleState]
      exampleHeap_prefixes
    by (simp add: exampleState_def)
  have c: "\<exists>n' p'. targetCache (fst (snd (handleUpdate False
           (SubscribeResponse (SubscribeResponse_Update 3)) (exampleState, exampleHeap))))
         = [Connect, GnmiUpdate 3 n' p'] \<and> p' = paths exampleHeap 1 \<and> n' = notifs exampleHeap 3"
    using handleUpdate_prefix_defaulting[OF exampleHeap_accepts(3) handleUpdate_triple,
            of False exampleState]
      exampleHeap_prefixes
    by (simp add: exampleState_def)
  from a b c exampleHeap_accepts exampleHeap_prefixes show ?thesis by simp
qed

text \<open>
  C7 as the specification states it, for every inbound data update, fails: the notification at
  address 1 of the example store has no prefix, and because its second update is rejected
  by the filter it is not forwarded at all; the cache target receives \<^verbatim>\<open>Connect\<close>
  only.
\<close>

theorem handleUpdate_rejected_not_forwarded:
  "Prefix (notifs exampleHeap 1) = None
   \<and> targetCache (fst (snd (handleUpdate False (SubscribeResponse (SubscribeResponse_Update 1))
        (exampleState, exampleHeap)))) = [Connect]"
  by (simp add: handleUpdate_def exampleState_def exampleHeap_def notificationOf_def Let_def
        ensurePrefix_def defaultTarget_def emptyPath_def
        rejectUpdate_def rejectPath_def getPathElem_def updateOf_def pathOf_def elem_def
        keyedElem_def)

text \<open>
  C9, as the code has it. \<^verbatim>\<open>handleUpdate\<close> marks the target state connected before it
  looks at the message: after any inbound message, of whatever kind, \<^verbatim>\<open>connected\<close>
  is true, and the first call the cache target receives from a target state that was not
  connected is \<^verbatim>\<open>Connect\<close>.
\<close>

theorem handleUpdate_connects_on_any_message:
  "connected (fst (snd (handleUpdate sinkFails m (t, h))))
   \<and> (\<exists>rest. targetCache (fst (snd (handleUpdate sinkFails m (t, h))))
         = targetCache t @ (if connected t then [] else [Connect]) @ rest)"
  by (cases "connected t")
     (simp_all add: handleUpdate_def Let_def split: message.splits response.splits)

text \<open>
  C9 as the specification states it fails: a sync signal, which is not a data update, arriving at the
  example target state, which is not connected, leaves it connected.
\<close>

theorem handleUpdate_sync_sets_connected:
  "\<not> connected exampleState
   \<and> connected (fst (snd (handleUpdate False
         (SubscribeResponse (SubscribeResponse_SyncResponse True)) (exampleState, exampleHeap))))"
  by (simp add: handleUpdate_def exampleState_def)

text \<open>
  C10. On a data update at address \<open>a\<close>, \<^verbatim>\<open>handleUpdate\<close> writes into the store: a
  missing prefix becomes a pointer to a newly allocated \<^verbatim>\<open>Path\<close> that is empty but for
  its target, the name of the target state; an existing prefix keeps its pointer, and the
  \<^verbatim>\<open>Path\<close> behind it gets the name as target if its target was empty and is unchanged
  otherwise. Every other field of the notification, every other notification and every
  other \<^verbatim>\<open>Path\<close> is unchanged. The one \<^verbatim>\<open>GnmiUpdate\<close> call the cache target may
  receive carries the same pointer \<open>a\<close>, and sees the notification and the prefix as the
  store holds them after these writes.
\<close>

theorem handleUpdate_mutates_in_place:
  assumes "handleUpdate sinkFails (SubscribeResponse (SubscribeResponse_Update a)) (t, h)
             = (e, t', h')"
  shows "(Prefix (notifs h a) = None \<longrightarrow>
            Prefix (notifs h' a) = Some (nextPath h)
          \<and> paths h' (nextPath h) = emptyPath\<lparr>Target := name t\<rparr>)
       \<and> (\<forall>p. Prefix (notifs h a) = Some p \<longrightarrow>
            Prefix (notifs h' a) = Some p
          \<and> paths h' p = (if Target (paths h p) = [] then (paths h p)\<lparr>Target := name t\<rparr>
                          else paths h p))
       \<and> notifs h' a = (notifs h a)\<lparr>Prefix := Prefix (notifs h' a)\<rparr>
       \<and> (\<forall>b. b \<noteq> a \<longrightarrow> notifs h' b = notifs h b)
       \<and> (\<forall>q. Some q \<noteq> Prefix (notifs h' a) \<longrightarrow> paths h' q = paths h q)
       \<and> (\<exists>p'. Prefix (notifs h' a) = Some p'
          \<and> targetCache t' = targetCache t @ (if connected t then [] else [Connect])
               @ (if rejectUpdate (notifs h a) = None
                  then [GnmiUpdate a (notifs h' a) (paths h' p')] else []))"
proof -
  have h': "h' = defaultTarget (name t) (fst (ensurePrefix a h)) (snd (ensurePrefix a h))"
    using assms by (auto simp: handleUpdate_Update Let_def split: if_splits)
  have t': "targetCache t' = targetCache t @ (if connected t then [] else [Connect])
               @ (if rejectUpdate (notifs h a) = None
                  then [GnmiUpdate a (notifs h' a) (paths h' (fst (ensurePrefix a h)))] else [])"
    using assms by (auto simp: handleUpdate_Update Let_def split: if_splits)
  show ?thesis
  proof (cases "Prefix (notifs h a)")
    case None
    then show ?thesis unfolding t' unfolding h'
      by (simp add: ensurePrefix_def defaultTarget_def emptyPath_def)
  next
    case (Some p)
    then show ?thesis unfolding t' unfolding h'
      by (simp add: ensurePrefix_def defaultTarget_def)
  qed
qed

theorem handleUpdate_mutates_in_place_witness:
  "Prefix (notifs exampleHeap 0) = None
   \<and> Prefix (notifs (snd (snd (handleUpdate False
         (SubscribeResponse (SubscribeResponse_Update 0)) (exampleState, exampleHeap)))) 0) = Some 2
   \<and> paths (snd (snd (handleUpdate False
         (SubscribeResponse (SubscribeResponse_Update 0)) (exampleState, exampleHeap)))) 2
       = emptyPath\<lparr>Target := ''router1''\<rparr>
   \<and> notifs (snd (snd (handleUpdate False
         (SubscribeResponse (SubscribeResponse_Update 0)) (exampleState, exampleHeap)))) 0
       = (notifs exampleHeap 0)\<lparr>Prefix := Some 2\<rparr>
   \<and> targetCache (fst (snd (handleUpdate False
         (SubscribeResponse (SubscribeResponse_Update 0)) (exampleState, exampleHeap))))
       = [Connect, GnmiUpdate 0 ((notifs exampleHeap 0)\<lparr>Prefix := Some 2\<rparr>)
                     (emptyPath\<lparr>Target := ''router1''\<rparr>)]
   \<and> Prefix (notifs exampleHeap 2) = Some 0
   \<and> paths (snd (snd (handleUpdate False
         (SubscribeResponse (SubscribeResponse_Update 2)) (exampleState, exampleHeap)))) 0
       = (paths exampleHeap 0)\<lparr>Target := ''router1''\<rparr>
   \<and> notifs (snd (snd (handleUpdate False
         (SubscribeResponse (SubscribeResponse_Update 2)) (exampleState, exampleHeap)))) 2
       = notifs exampleHeap 2"
proof -
  note a = handleUpdate_mutates_in_place[where sinkFails = False and a = 0
             and t = exampleState and h = exampleHeap, OF handleUpdate_triple]
  note b = handleUpdate_mutates_in_place[where sinkFails = False and a = 2
             and t = exampleState and h = exampleHeap, OF handleUpdate_triple]
  have n: "name exampleState = ''router1''" "targetCache exampleState = []"
    "\<not> connected exampleState" "nextPath exampleHeap = 2"
    by (simp_all add: exampleState_def exampleHeap_def)
  from a exampleHeap_prefixes exampleHeap_accepts n
  have a': "Prefix (notifs (snd (snd (handleUpdate False
         (SubscribeResponse (SubscribeResponse_Update 0)) (exampleState, exampleHeap)))) 0) = Some 2"
    "paths (snd (snd (handleUpdate False
         (SubscribeResponse (SubscribeResponse_Update 0)) (exampleState, exampleHeap)))) 2
       = emptyPath\<lparr>Target := ''router1''\<rparr>"
    "notifs (snd (snd (handleUpdate False
         (SubscribeResponse (SubscribeResponse_Update 0)) (exampleState, exampleHeap)))) 0
       = (notifs exampleHeap 0)\<lparr>Prefix := Some 2\<rparr>"
    "targetCache (fst (snd (handleUpdate False
         (SubscribeResponse (SubscribeResponse_Update 0)) (exampleState, exampleHeap))))
       = [Connect, GnmiUpdate 0 ((notifs exampleHeap 0)\<lparr>Prefix := Some 2\<rparr>)
                     (emptyPath\<lparr>Target := ''router1''\<rparr>)]"
    by auto
  from b exampleHeap_prefixes n
  have b': "paths (snd (snd (handleUpdate False
         (SubscribeResponse (SubscribeResponse_Update 2)) (exampleState, exampleHeap)))) 0
       = (paths exampleHeap 0)\<lparr>Target := ''router1''\<rparr>"
    "notifs (snd (snd (handleUpdate False
         (SubscribeResponse (SubscribeResponse_Update 2)) (exampleState, exampleHeap)))) 2
       = notifs exampleHeap 2"
    by auto
  from a' b' exampleHeap_prefixes show ?thesis by simp
qed


section \<open>Sequences of messages and disconnects\<close>

lemma connAfter_append: "connAfter c (xs @ ys) = connAfter (connAfter c xs) ys"
  by (induction c xs rule: connAfter.induct) simp_all

lemma sinkOK_append: "sinkOK c (xs @ ys) \<longleftrightarrow> sinkOK c xs \<and> sinkOK (connAfter c xs) ys"
proof (induction xs arbitrary: c)
  case Nil
  show ?case by simp
next
  case (Cons x xs)
  have "connAfter c (x # xs) = connAfter (connAfter c [x]) xs"
    using connAfter_append[of c "[x]" xs] by simp
  with Cons show ?case by simp
qed

text \<open>
  One call of \<^verbatim>\<open>handleUpdate\<close> extends the calls on the cache target by a well-ordered
  piece, and \<^verbatim>\<open>connected\<close> follows the calls.
\<close>

lemma handleUpdate_sink:
  "\<exists>new. targetCache (fst (snd (handleUpdate f m (t, h)))) = targetCache t @ new
        \<and> sinkOK (connected t) new
        \<and> connected (fst (snd (handleUpdate f m (t, h)))) = connAfter (connected t) new"
  by (cases "connected t")
     (simp_all add: handleUpdate_def Let_def split: message.splits response.splits)

lemma disconnected_sink:
  "\<exists>new. targetCache (disconnected t) = targetCache t @ new
        \<and> sinkOK (connected t) new
        \<and> connected (disconnected t) = connAfter (connected t) new"
  by (simp add: disconnected_def)

lemma deliver_sink:
  "\<exists>new. targetCache (fst (deliver e (t, h))) = targetCache t @ new
        \<and> sinkOK (connected t) new
        \<and> connected (fst (deliver e (t, h))) = connAfter (connected t) new"
proof (cases e)
  case (Inbound m f)
  then show ?thesis using handleUpdate_sink[of f m t h] by simp
next
  case TransportClosed
  then show ?thesis using disconnected_sink[of t] by simp
qed

lemma deliverAll_sink:
  "\<exists>new. targetCache (fst (deliverAll es (t, h))) = targetCache t @ new
        \<and> sinkOK (connected t) new
        \<and> connected (fst (deliverAll es (t, h))) = connAfter (connected t) new"
proof (induction es arbitrary: t h)
  case Nil
  show ?case by simp
next
  case (Cons e es)
  obtain t1 h1 where s1: "deliver e (t, h) = (t1, h1)" by (cases "deliver e (t, h)")
  from deliver_sink[of e t h] s1 obtain n1 where
    a: "targetCache t1 = targetCache t @ n1" "sinkOK (connected t) n1"
       "connected t1 = connAfter (connected t) n1" by auto
  from Cons.IH[of t1 h1] obtain n2 where
    b: "targetCache (fst (deliverAll es (t1, h1))) = targetCache t1 @ n2"
       "sinkOK (connected t1) n2"
       "connected (fst (deliverAll es (t1, h1))) = connAfter (connected t1) n2" by auto
  have "targetCache (fst (deliverAll (e # es) (t, h))) = targetCache t @ (n1 @ n2)
        \<and> sinkOK (connected t) (n1 @ n2)
        \<and> connected (fst (deliverAll (e # es) (t, h))) = connAfter (connected t) (n1 @ n2)"
    using a b s1 by (simp add: sinkOK_append connAfter_append)
  then show ?case by blast
qed

lemma connAfter_snoc_other:
  "y \<noteq> Connect \<Longrightarrow> y \<noteq> Disconnect \<Longrightarrow> connAfter c (pre @ [y]) = connAfter c pre"
  by (cases y) (simp_all add: connAfter_append)

text \<open>
  A target that is connected after the calls \<open>pre\<close> was connected before them or has
  received a \<^verbatim>\<open>Connect\<close> with no \<^verbatim>\<open>Disconnect\<close> after it.
\<close>

lemma connAfter_True:
  "connAfter c pre \<Longrightarrow>
     c \<or> (\<exists>pre1 pre2. pre = pre1 @ Connect # pre2 \<and> Disconnect \<notin> set pre2)"
proof (induction pre rule: rev_induct)
  case Nil
  then show ?case by simp
next
  case (snoc y pre)
  consider (con) "y = Connect" | (dis) "y = Disconnect"
    | (other) "y \<noteq> Connect" "y \<noteq> Disconnect" by blast
  then show ?case
  proof cases
    case con
    then have "pre @ [y] = pre @ Connect # [] \<and> Disconnect \<notin> set []" by simp
    then show ?thesis by blast
  next
    case dis
    with snoc.prems show ?thesis by (simp add: connAfter_append)
  next
    case other
    with snoc.prems have "connAfter c pre" by (simp add: connAfter_snoc_other)
    with snoc.IH
    have "c \<or> (\<exists>pre1 pre2. pre = pre1 @ Connect # pre2 \<and> Disconnect \<notin> set pre2)"
      by simp
    then show ?thesis
    proof
      assume c
      then show ?thesis by simp
    next
      assume "\<exists>pre1 pre2. pre = pre1 @ Connect # pre2 \<and> Disconnect \<notin> set pre2"
      then obtain pre1 pre2 where "pre = pre1 @ Connect # pre2" "Disconnect \<notin> set pre2"
        by blast
      with other have "pre @ [y] = pre1 @ Connect # (pre2 @ [y])
          \<and> Disconnect \<notin> set (pre2 @ [y])" by simp
      then show ?thesis by blast
    qed
  qed
qed

lemma connAfter_no_Disconnect: "Disconnect \<notin> set b \<Longrightarrow> connAfter True b"
  by (induction True b rule: connAfter.induct) simp_all

lemma sinkOK_needs:
  assumes "sinkOK False (pre @ x # post)" and "needsConnection x"
  shows "\<exists>pre1 pre2. pre = pre1 @ Connect # pre2 \<and> Disconnect \<notin> set pre2"
proof -
  from assms(1) have "sinkOK (connAfter False pre) (x # post)" by (simp add: sinkOK_append)
  with assms(2) have "connAfter False pre" by (cases x) simp_all
  from connAfter_True[OF this] show ?thesis by simp
qed

lemma sinkOK_two_connects:
  assumes "sinkOK c (a @ Connect # b @ Connect # d)"
  shows "Disconnect \<in> set b"
proof (rule ccontr)
  assume n: "Disconnect \<notin> set b"
  from assms have "sinkOK (connAfter c a) (Connect # b @ Connect # d)"
    by (simp add: sinkOK_append)
  then have "sinkOK True (b @ Connect # d)" by simp
  then have "sinkOK (connAfter True b) (Connect # d)" by (simp add: sinkOK_append)
  with connAfter_no_Disconnect[OF n] show False by simp
qed

text \<open>
  C2. Take a target state that is not connected and whose cache target has received no
  call, and deliver any sequence of inbound messages and disconnect callbacks. In the
  calls the cache target has then received, every \<^verbatim>\<open>Sync\<close> and every
  \<^verbatim>\<open>GnmiUpdate\<close> comes after a \<^verbatim>\<open>Connect\<close> with no \<^verbatim>\<open>Disconnect\<close> in
  between, and between any two \<^verbatim>\<open>Connect\<close> calls there is a \<^verbatim>\<open>Disconnect\<close>.
\<close>

theorem connect_before_update:
  assumes "\<not> connected t" and "targetCache t = []"
  shows "(\<forall>pre x post. targetCache (fst (deliverAll es (t, h))) = pre @ x # post
             \<and> (x = Sync \<or> (\<exists>a n p. x = GnmiUpdate a n p))
           \<longrightarrow> (\<exists>pre1 pre2. pre = pre1 @ Connect # pre2 \<and> Disconnect \<notin> set pre2))
       \<and> (\<forall>a b d. targetCache (fst (deliverAll es (t, h))) = a @ Connect # b @ Connect # d
           \<longrightarrow> Disconnect \<in> set b)"
proof -
  from deliverAll_sink[of es t h] assms
  have ok: "sinkOK False (targetCache (fst (deliverAll es (t, h))))" by auto
  show ?thesis
  proof (intro conjI allI impI)
    fix pre x post
    assume a: "targetCache (fst (deliverAll es (t, h))) = pre @ x # post
             \<and> (x = Sync \<or> (\<exists>a n p. x = GnmiUpdate a n p))"
    then have "needsConnection x" by auto
    with ok a show "\<exists>pre1 pre2. pre = pre1 @ Connect # pre2 \<and> Disconnect \<notin> set pre2"
      using sinkOK_needs[of pre x post] by simp
  next
    fix a b d
    assume "targetCache (fst (deliverAll es (t, h))) = a @ Connect # b @ Connect # d"
    with ok show "Disconnect \<in> set b" using sinkOK_two_connects[of False a b d] by simp
  qed
qed

theorem connect_before_update_witness:
  "\<not> connected exampleState \<and> targetCache exampleState = []
   \<and> targetCache (fst (deliverAll exampleEvents (exampleState, exampleHeap)))
       = [Connect, Sync, Disconnect, Reset, Connect, Sync]
   \<and> (\<exists>pre1 pre2. [Connect, Sync, Disconnect, Reset, Connect] = pre1 @ Connect # pre2
         \<and> Disconnect \<notin> set pre2)
   \<and> Disconnect \<in> set [Sync, Disconnect, Reset]"
proof -
  have a: "\<not> connected exampleState" and b: "targetCache exampleState = []"
    by (simp_all add: exampleState_def)
  have l: "targetCache (fst (deliverAll exampleEvents (exampleState, exampleHeap)))
       = [Connect, Sync, Disconnect, Reset, Connect, Sync]"
    by (simp add: exampleEvents_def exampleState_def handleUpdate_def disconnected_def)
  note th = connect_before_update[OF a b, of exampleEvents exampleHeap, unfolded l]
  have d1: "[Connect, Sync, Disconnect, Reset, Connect, Sync]
              = [Connect, Sync, Disconnect, Reset, Connect] @ Sync # []
            \<and> (Sync = Sync \<or> (\<exists>a n p. Sync = GnmiUpdate a n p))" by simp
  have d2: "[Connect, Sync, Disconnect, Reset, Connect, Sync]
              = [] @ Connect # [Sync, Disconnect, Reset] @ Connect # [Sync]" by simp
  from th d1 have c1: "\<exists>pre1 pre2. [Connect, Sync, Disconnect, Reset, Connect] = pre1 @ Connect # pre2
         \<and> Disconnect \<notin> set pre2" by blast
  from th d2 have c2: "Disconnect \<in> set [Sync, Disconnect, Reset]" by blast
  from a b l c1 c2 show ?thesis by blast
qed

section \<open>Disconnecting\<close>

lemma handleUpdate_frame:
  "stopped (fst (snd (handleUpdate f m (t, h)))) = stopped t
   \<and> client (fst (snd (handleUpdate f m (t, h)))) = client t"
  by (simp add: handleUpdate_def Let_def split: message.splits response.splits)

lemma clientClose_frame:
  "stopped (snd (clientClose co t)) = stopped t \<and> client (snd (clientClose co t)) = client t"
  by (simp add: clientClose_def disconnected_def split: option.splits close_outcome.splits)

lemma clientClose_Returned: "clientClose co t = (Returned e, t') \<Longrightarrow> client t \<noteq> None"
  by (auto simp: clientClose_def split: option.splits)

text \<open>
  No operation takes \<^verbatim>\<open>stopped\<close> back, and an operation that returns keeps the
  invariant that a stopped target state has a client.
\<close>

lemma execOp_frame:
  assumes "execOp x (t, h) = (r, t', h')"
  shows "(stopped t \<longrightarrow> stopped t')
       \<and> (r \<noteq> Panicked \<longrightarrow> (stopped t \<longrightarrow> client t \<noteq> None)
            \<longrightarrow> (stopped t' \<longrightarrow> client t' \<noteq> None))"
proof (cases x)
  case (OpConnect env)
  with assms show ?thesis by (cases env) (auto simp: connect_def)
next
  case (OpDisconnect co)
  obtain r1 t1 where d: "disconnect co t = (r1, t1)" by (cases "disconnect co t")
  then have c: "clientClose co (t\<lparr>stopped := True\<rparr>) = (r1, t1)"
    by (simp add: disconnect_def)
  from clientClose_frame[of co "t\<lparr>stopped := True\<rparr>"] c
  have f: "stopped t1" "client t1 = client t" by simp_all
  have g: "r1 \<noteq> Panicked \<Longrightarrow> client t \<noteq> None"
    using clientClose_Returned[of co "t\<lparr>stopped := True\<rparr>" _ t1] c by (cases r1) auto
  from assms OpDisconnect d have "t' = t1" "r = Panicked \<longleftrightarrow> r1 = Panicked"
    by (auto split: outcome.splits)
  with f g show ?thesis by auto
next
  case OpDisconnected
  with assms show ?thesis by (auto simp: disconnected_def)
next
  case (OpReconnect co)
  obtain r1 t1 where d: "reconnect co t = (r1, t1)" by (cases "reconnect co t")
  then have c: "clientClose co t = (r1, t1)" by (simp add: reconnect_def)
  from clientClose_frame[of co t] c
  have f: "stopped t1 = stopped t" "client t1 = client t" by simp_all
  from assms OpReconnect d have "t' = t1" by (auto split: outcome.splits)
  with f show ?thesis by auto
next
  case (OpHandleUpdate m f)
  with assms handleUpdate_frame[of f m t h] show ?thesis by auto
qed

lemma execOps_frame:
  "execOps xs (t, h) = Some (t', h') \<Longrightarrow>
     (stopped t \<longrightarrow> stopped t')
   \<and> ((stopped t \<longrightarrow> client t \<noteq> None) \<longrightarrow> (stopped t' \<longrightarrow> client t' \<noteq> None))"
proof (induction xs arbitrary: t h)
  case Nil
  then show ?case by simp
next
  case (Cons x xs)
  obtain r t1 h1 where e: "execOp x (t, h) = (r, t1, h1)" by (cases "execOp x (t, h)") auto
  with Cons.prems have r: "r \<noteq> Panicked" and rest: "execOps xs (t1, h1) = Some (t', h')"
    by (auto split: outcome.splits)
  from execOp_frame[OF e] r Cons.IH[OF rest] show ?case by blast
qed

lemma connectWithLock_stopped:
  "stopped t \<Longrightarrow> connectWithLock es t = Some (False, False, t, [])"
  by (cases es) (simp_all add: connectWithLock_def)

text \<open>
  \<^verbatim>\<open>stopped\<close> is monotonic. From a stopped target state it stays true after every
  single operation, whether it returns or panics, after every run of operations, and
  after \<^verbatim>\<open>connectWithLock\<close>, which returns at once; and \<^verbatim>\<open>disconnect\<close> leaves
  it true whatever \<^verbatim>\<open>Close\<close> does.
\<close>

lemma stopped_monotonic:
  assumes "stopped t"
  shows "(\<forall>x. stopped (fst (snd (execOp x (t, h)))))
       \<and> (\<forall>ys t' h'. execOps ys (t, h) = Some (t', h') \<longrightarrow> stopped t')
       \<and> (\<forall>es. connectWithLock es t = Some (False, False, t, []))"
proof -
  have a: "\<forall>x. stopped (fst (snd (execOp x (t, h))))"
  proof
    fix x
    obtain r t1 h1 where e: "execOp x (t, h) = (r, t1, h1)" by (cases "execOp x (t, h)") auto
    from execOp_frame[OF e] assms e show "stopped (fst (snd (execOp x (t, h))))" by simp
  qed
  have b: "\<forall>ys t' h'. execOps ys (t, h) = Some (t', h') \<longrightarrow> stopped t'"
    using execOps_frame assms by blast
  from a b connectWithLock_stopped[OF assms] show ?thesis by blast
qed

lemma disconnect_sets_stopped: "stopped (snd (disconnect co t))"
  using clientClose_frame[of co "t\<lparr>stopped := True\<rparr>"] by (simp add: disconnect_def)

text \<open>
  On a target state that has a client, \<^verbatim>\<open>disconnect\<close> does what \<^verbatim>\<open>Close\<close>
  does: when \<^verbatim>\<open>Close\<close> returns, the disconnect callback has reset the cache target
  and \<^verbatim>\<open>connected\<close>; it panics only if \<^verbatim>\<open>Close\<close> panics.
\<close>

lemma disconnect_with_client:
  "client t = Some c \<Longrightarrow>
   disconnect (CloseReturns fails) t
     = (Returned (if fails then Some CloseError else None),
        t\<lparr>stopped := True, connected := False,
          targetCache := targetCache t @ [Disconnect, Reset]\<rparr>)"
  by (simp add: disconnect_def clientClose_def disconnected_def)

text \<open>
  A stopped target state that was reached from one that was not stopped, through
  operations none of which panicked, has a client.
\<close>

lemma stopped_has_client:
  "\<not> stopped t0 \<Longrightarrow> execOps xs (t0, h0) = Some (t, h) \<Longrightarrow> stopped t \<Longrightarrow> client t \<noteq> None"
  using execOps_frame[of xs t0 h0 t h] by blast


end
